theory Spec2Isabelle
  imports Main
begin

section \<open>Python strings and integers\<close>

text \<open>
  A Python \<open>str\<close> is modelled as a \<open>string\<close> whose characters are code points below 256.
  \<open>isspace\<close> lists the code points below 256 that \<open>str.isspace\<close> (and so \<open>str.strip()\<close>
  without arguments) treats as whitespace: tab, line feed, vertical tab, form feed, carriage
  return, the four separators 0x1C..0x1F, space, NEL (0x85) and no-break space (0xA0).
\<close>

definition whitespace :: "char list" where
  "whitespace = [CHR 0x09, CHR 0x0A, CHR 0x0B, CHR 0x0C, CHR 0x0D,
                 CHR 0x1C, CHR 0x1D, CHR 0x1E, CHR 0x1F, CHR 0x20, CHR 0x85, CHR 0xA0]"

definition isspace :: "char \<Rightarrow> bool" where
  "isspace c = (c \<in> set whitespace)"

text \<open>\<open>s.strip()\<close>: leading and trailing whitespace removed.\<close>

definition strip :: "string \<Rightarrow> string" where
  "strip s = rev (dropWhile isspace (rev (dropWhile isspace s)))"

text \<open>
  \<open>s.split(sep)\<close> for a one-character separator: the fields between the separators, in
  order; the empty string gives one empty field, as in Python.
\<close>

fun split :: "char \<Rightarrow> string \<Rightarrow> string list" where
  "split sep [] = [[]]"
| "split sep (c # cs) =
     (if c = sep then [] # split sep cs
      else (case split sep cs of
              [] \<Rightarrow> [[c]]
            | w # ws \<Rightarrow> (c # w) # ws))"

text \<open>\<open>sep.join(xs)\<close>, used to state what parsing does to a list written out as CSV.\<close>

fun join :: "char \<Rightarrow> string list \<Rightarrow> string" where
  "join sep [] = []"
| "join sep [x] = x"
| "join sep (x # y # ys) = x @ sep # join sep (y # ys)"

text \<open>\<open>str(i)\<close> for an integer: decimal digits, a minus sign for a negative number.\<close>

definition digit_char :: "nat \<Rightarrow> char" where
  "digit_char d = ''0123456789'' ! d"

fun digits :: "nat \<Rightarrow> string" where
  "digits n = (if n < 10 then [digit_char n] else digits (n div 10) @ [digit_char (n mod 10)])"

declare digits.simps [simp del]

definition str :: "int \<Rightarrow> string" where
  "str i = (if i < 0 then CHR ''-'' # digits (nat (- i)) else digits (nat i))"

text \<open>Python exceptions the modelled code can raise or let through.\<close>

datatype error =
    TimeoutError
  | TargetClosedError
  | AssertionError string
  | ValueError string
  | OSError

text \<open>
  \<open>int(s)\<close> for a string: surrounding whitespace is ignored, then an optional sign and
  decimal digits, where single underscores may stand between digits; anything else raises
  \<open>ValueError\<close>.
\<close>

definition digit_val :: "char \<Rightarrow> nat option" where
  "digit_val c =
     map_of [(CHR ''0'', 0), (CHR ''1'', 1), (CHR ''2'', 2), (CHR ''3'', 3), (CHR ''4'', 4),
             (CHR ''5'', 5), (CHR ''6'', 6), (CHR ''7'', 7), (CHR ''8'', 8), (CHR ''9'', 9)] c"

fun parse_digits :: "nat \<Rightarrow> string \<Rightarrow> nat option" where
  "parse_digits acc [] = Some acc"
| "parse_digits acc [c] =
     (case digit_val c of None \<Rightarrow> None | Some d \<Rightarrow> Some (10 * acc + d))"
| "parse_digits acc (c # c' # cs) =
     (case digit_val c of
        None \<Rightarrow> None
      | Some d \<Rightarrow>
          if c' = CHR ''_'' then (if cs = [] then None else parse_digits (10 * acc + d) cs)
          else parse_digits (10 * acc + d) (c' # cs))"

definition parse_nat :: "string \<Rightarrow> nat option" where
  "parse_nat s = (if s = [] then None else parse_digits 0 s)"

definition py_int :: "string \<Rightarrow> error + int" where
  "py_int s =
     (let t = strip s;
          (neg, body) = (case t of
                           c # cs \<Rightarrow> if c = CHR ''-'' then (True, cs)
                                      else if c = CHR ''+'' then (False, cs)
                                      else (False, t)
                         | [] \<Rightarrow> (False, t))
      in case parse_nat body of
           None \<Rightarrow> Inl (ValueError s)
         | Some n \<Rightarrow> Inr (if neg then - int n else int n))"

section \<open>config/settings.py\<close>

text \<open>
  \<open>AirportData.expected_airports\<close>:
  \<^verbatim>\<open>[a.strip() for a in self.expected_airports_csv.split(',') if a.strip()]\<close>
\<close>

definition expected_airports :: "string \<Rightarrow> string list" where
  "expected_airports expected_airports_csv =
     map strip (filter (\<lambda>a. strip a \<noteq> []) (split (CHR '','') expected_airports_csv))"

text \<open>\<open>Credentials\<close>: the frozen dataclass of default user name and password.\<close>

record credentials =
  username :: string
  password :: string

section \<open>The browser the page objects drive\<close>

text \<open>
  A Playwright \<open>Locator\<close> is a lazy description of elements: \<open>page.locator(selector)\<close> and
  \<open>locator.first\<close> query nothing. What a page object is handed is a selector string or a
  locator (\<open>Union[str, Locator]\<close>).
\<close>

type_synonym selector = string

datatype locator = Css selector | First locator

datatype target = Sel selector | Loc locator

text \<open>
  The browser is an external collaborator, so it is a parameter: a record of what each
  Playwright call used by the page objects does to a page state \<open>'s\<close>. Reads that return at
  once (\<open>count\<close>, \<open>is_visible\<close>, the value of an input) are observations of the state; calls
  that act or wait return the next state or the exception they raise; a call that raises
  leaves the page as it was.
\<close>

record 's browser =
  loc_count :: "locator \<Rightarrow> 's \<Rightarrow> nat"
  loc_is_visible :: "locator \<Rightarrow> 's \<Rightarrow> bool"
  loc_input_value :: "locator \<Rightarrow> 's \<Rightarrow> string"
  loc_text_content :: "locator \<Rightarrow> 's \<Rightarrow> error + string option"
  loc_click :: "locator \<Rightarrow> bool \<Rightarrow> 's \<Rightarrow> error + 's"
  loc_fill :: "locator \<Rightarrow> string \<Rightarrow> 's \<Rightarrow> error + 's"
  expect_to_be_visible :: "locator \<Rightarrow> nat \<Rightarrow> 's \<Rightarrow> error + 's"

text \<open>
  Every call that reaches the browser is recorded, in order, next to the page state, so
  that what a method asks of the browser, and when, can be stated.
\<close>

datatype event =
    Count locator
  | IsVisible locator
  | TextContent locator
  | Click locator bool
  | Fill locator string
  | ExpectVisible locator nat

type_synonym 's world = "'s \<times> event list"

definition record_event :: "event \<Rightarrow> 's world \<Rightarrow> 's world" where
  "record_event ev w = (fst w, snd w @ [ev])"

text \<open>An acting call: the event is recorded, the page moves on unless the call raised.\<close>

definition act :: "event \<Rightarrow> (error + 's) \<Rightarrow> 's world \<Rightarrow> (error + unit) \<times> 's world" where
  "act ev r w =
     (case r of
        Inl e \<Rightarrow> (Inl e, record_event ev w)
      | Inr s' \<Rightarrow> (Inr (), (s', snd w @ [ev])))"

text \<open>\<open>locator.count()\<close>, as the inventory page calls it on \<open>self.add_buttons\<close>.\<close>

definition locator_count :: "'s browser \<Rightarrow> locator \<Rightarrow> 's world \<Rightarrow> nat \<times> 's world" where
  "locator_count B l w = (loc_count B l (fst w), record_event (Count l) w)"

section \<open>pages/base\_page.py\<close>

text \<open>
  The logger calls of the page objects write log lines only; they ask nothing of the browser
  and decide no result, and are left out.
\<close>

definition ensure_locator :: "target \<Rightarrow> locator" where
  "ensure_locator target = (case target of Loc l \<Rightarrow> l | Sel sel \<Rightarrow> Css sel)"

definition click :: "'s browser \<Rightarrow> target \<Rightarrow> bool \<Rightarrow> 's world \<Rightarrow> (error + unit) \<times> 's world" where
  "click B target force w =
     (let loc = ensure_locator target
      in act (Click loc force) (loc_click B loc force (fst w)) w)"

text \<open>\<open>fill\<close>: \<^verbatim>\<open>if clear: loc.fill("")\<close> and then \<^verbatim>\<open>loc.fill(text)\<close>.\<close>

definition fill :: "'s browser \<Rightarrow> target \<Rightarrow> string \<Rightarrow> bool \<Rightarrow> 's world \<Rightarrow> (error + unit) \<times> 's world" where
  "fill B target text clear w =
     (let loc = ensure_locator target
      in if clear then
           (case act (Fill loc []) (loc_fill B loc [] (fst w)) w of
              (Inl e, w1) \<Rightarrow> (Inl e, w1)
            | (Inr _, w1) \<Rightarrow> act (Fill loc text) (loc_fill B loc text (fst w1)) w1)
         else act (Fill loc text) (loc_fill B loc text (fst w)) w)"

text \<open>\<open>get_text\<close>: \<^verbatim>\<open>value = loc.text_content() or ""\<close>, returned stripped.\<close>

definition get_text :: "'s browser \<Rightarrow> target \<Rightarrow> 's world \<Rightarrow> (error + string) \<times> 's world" where
  "get_text B target w =
     (let loc = ensure_locator target
      in case loc_text_content B loc (fst w) of
           Inl e \<Rightarrow> (Inl e, record_event (TextContent loc) w)
         | Inr v \<Rightarrow>
             (let value = (case v of None \<Rightarrow> [] | Some t \<Rightarrow> t)
              in (Inr (strip value), record_event (TextContent loc) w)))"

definition is_visible :: "'s browser \<Rightarrow> target \<Rightarrow> 's world \<Rightarrow> bool \<times> 's world" where
  "is_visible B target w =
     (let loc = ensure_locator target
      in (loc_is_visible B loc (fst w), record_event (IsVisible loc) w))"

definition expect_visible :: "'s browser \<Rightarrow> target \<Rightarrow> nat \<Rightarrow> 's world \<Rightarrow> (error + locator) \<times> 's world" where
  "expect_visible B target timeout w =
     (let loc = ensure_locator target
      in case act (ExpectVisible loc timeout) (expect_to_be_visible B loc timeout (fst w)) w of
           (Inl e, w1) \<Rightarrow> (Inl e, w1)
         | (Inr _, w1) \<Rightarrow> (Inr loc, w1))"

section \<open>pages/inventory\_page.py\<close>

definition ADD_TO_CART_BTNS :: selector where
  \<open>ADD_TO_CART_BTNS = ''button[data-test^="add-to-cart-"]''\<close>

definition CART_BADGE :: selector where
  "CART_BADGE = ''.shopping_cart_badge''"

definition add_buttons :: locator where
  "add_buttons = Css ADD_TO_CART_BTNS"

definition cart_badge :: locator where
  "cart_badge = Css CART_BADGE"

text \<open>
  \<open>add_items_to_cart\<close>. The body of \<^verbatim>\<open>for i in range(to_add)\<close> runs \<open>to_add\<close> times,
  and not at all when \<open>to_add\<close> is zero or negative: \<open>nat to_add\<close> iterations.
\<close>

fun click_loop :: "'s browser \<Rightarrow> nat \<Rightarrow> int \<Rightarrow> 's world \<Rightarrow> (error + int) \<times> 's world" where
  "click_loop B 0 added w = (Inr added, w)"
| "click_loop B (Suc k) added w =
     (case click B (Loc (First add_buttons)) False w of
        (Inl e, w1) \<Rightarrow> (Inl e, w1)
      | (Inr _, w1) \<Rightarrow> click_loop B k (added + 1) w1)"

definition add_items_to_cart :: "'s browser \<Rightarrow> int \<Rightarrow> 's world \<Rightarrow> (error + int) \<times> 's world" where
  "add_items_to_cart B number w =
     (case locator_count B add_buttons w of
        (available, w1) \<Rightarrow>
          (let to_add = min number (int available)
           in click_loop B (nat to_add) 0 w1))"

text \<open>
  \<open>add_all_items_to_cart\<close>: \<^verbatim>\<open>while self.add_buttons.count() > 0\<close>. Nothing in the code
  bounds the loop, so the model is a partial function: \<open>None\<close> is a loop that never ends.
\<close>

partial_function (option) add_all_loop ::
    "'s browser \<Rightarrow> int \<Rightarrow> 's world \<Rightarrow> ((error + int) \<times> 's world) option" where
  "add_all_loop B added w =
     (case locator_count B add_buttons w of
        (n, w1) \<Rightarrow>
          if n > 0 then
            (case click B (Loc (First add_buttons)) False w1 of
               (Inl e, w2) \<Rightarrow> Some (Inl e, w2)
             | (Inr _, w2) \<Rightarrow> add_all_loop B (added + 1) w2)
          else Some (Inr added, w1))"

declare add_all_loop.simps [code]

definition add_all_items_to_cart :: "'s browser \<Rightarrow> 's world \<Rightarrow> ((error + int) \<times> 's world) option" where
  "add_all_items_to_cart B w = add_all_loop B 0 w"

text \<open>
  \<open>assert_cart_count\<close>. A failing \<^verbatim>\<open>assert\<close> raises \<open>AssertionError\<close> with the formatted
  message; \<open>expect_visible\<close> is called with its default timeout of 10000 ms.
\<close>

definition assert_cart_count :: "'s browser \<Rightarrow> int \<Rightarrow> 's world \<Rightarrow> (error + unit) \<times> 's world" where
  "assert_cart_count B expected w =
     (if expected = 0 then
        (case is_visible B (Sel CART_BADGE) w of
           (visible, w1) \<Rightarrow>
             if \<not> visible then (Inr (), w1)
             else
               (case get_text B (Loc cart_badge) w1 of
                  (Inl e, w2) \<Rightarrow> (Inl e, w2)
                | (Inr t, w2) \<Rightarrow>
                    (case py_int t of
                       Inl e \<Rightarrow> (Inl e, w2)
                     | Inr actual \<Rightarrow>
                         if actual = 0 then (Inr (), w2)
                         else (Inl (AssertionError
                                 (''Expected empty cart (0) but badge showed '' @ str actual)), w2))))
      else
        (case expect_visible B (Loc cart_badge) 10000 w of
           (Inl e, w1) \<Rightarrow> (Inl e, w1)
         | (Inr _, w1) \<Rightarrow>
             (case get_text B (Loc cart_badge) w1 of
                (Inl e, w2) \<Rightarrow> (Inl e, w2)
              | (Inr actual, w2) \<Rightarrow>
                  if actual = str expected then (Inr (), w2)
                  else (Inl (AssertionError
                          (''Cart badge expected '' @ str expected @ '' got '' @ actual)), w2))))"

section \<open>pages/login\_page.py\<close>

definition username_input :: locator where
  "username_input = Css ''#user-name''"

definition password_input :: locator where
  "password_input = Css ''#password''"

definition login_button :: locator where
  "login_button = Css ''#login-button''"

text \<open>\<^verbatim>\<open>x or default\<close> for an optional string: \<open>None\<close> and the empty string are falsy.\<close>

definition or_default :: "string option \<Rightarrow> string \<Rightarrow> string" where
  "or_default x d = (case x of None \<Rightarrow> d | Some v \<Rightarrow> if v = [] then d else v)"

definition login ::
    "'s browser \<Rightarrow> credentials \<Rightarrow> string option \<Rightarrow> string option \<Rightarrow> 's world \<Rightarrow> (error + unit) \<times> 's world" where
  "login B creds username_arg password_arg w =
     (let user = or_default username_arg (username creds);
          pass = or_default password_arg (password creds)
      in case fill B (Loc username_input) user True w of
           (Inl e, w1) \<Rightarrow> (Inl e, w1)
         | (Inr _, w1) \<Rightarrow>
             (case fill B (Loc password_input) pass True w1 of
                (Inl e, w2) \<Rightarrow> (Inl e, w2)
              | (Inr _, w2) \<Rightarrow> click B (Loc login_button) False w2))"

section \<open>utils/logger.py\<close>

text \<open>
  The \<open>logging\<close> module keeps one \<open>Logger\<close> object per name, so a reference to a logger is
  its key in that table, and two references are the same object exactly when they are the
  same key. A handler is the console \<open>StreamHandler\<close> or a \<open>FileHandler\<close> on a path, with its
  level; the formatter, the same for both, is left out.
\<close>

datatype handler = StreamHandler nat | FileHandler string nat

record logger =
  level :: nat
  handlers :: "handler list"
  propagate :: bool

record logging =
  loggers :: "string \<rightharpoonup> logger"
  cache :: "string \<rightharpoonup> string"

text \<open>
  \<open>cache\<close> is the module's \<open>_loggers\<close> dictionary. What the module reads from its
  surroundings is a parameter: the constants \<open>LOG_LEVEL\<close> and \<open>LOG_DIR\<close>, the formatted
  \<open>datetime.utcnow()\<close> of the call, and whether the log file can be opened.
\<close>

record log_env =
  LOG_LEVEL :: string
  LOG_DIR :: string
  utcnow :: string
  file_opens :: bool

text \<open>
  The state of a fresh process: the root logger exists, at level \<open>WARNING\<close>, and nothing
  is cached.
\<close>

definition logging_init :: logging where
  "logging_init =
     \<lparr>loggers = [''root'' \<mapsto> \<lparr>level = 30, handlers = [], propagate = True\<rparr>],
      cache = Map.empty\<rparr>"

text \<open>\<open>logging.getLogger(name)\<close>: the logger of that name, created on first use.\<close>

definition getLogger :: "string \<Rightarrow> logging \<Rightarrow> string \<times> logging" where
  "getLogger name st =
     (let key = (if name = [] then ''root'' else name)
      in case loggers st key of
           Some _ \<Rightarrow> (key, st)
         | None \<Rightarrow>
             (key, st\<lparr>loggers := (loggers st)(key \<mapsto> \<lparr>level = 0, handlers = [], propagate = True\<rparr>)\<rparr>))"

text \<open>The level names \<open>setLevel\<close> accepts; any other string raises \<open>ValueError\<close>.\<close>

definition check_level :: "string \<Rightarrow> error + nat" where
  "check_level name =
     (case map_of [(''CRITICAL'', 50), (''FATAL'', 50), (''ERROR'', 40), (''WARN'', 30),
                   (''WARNING'', 30), (''INFO'', 20), (''DEBUG'', 10), (''NOTSET'', 0)] name of
        None \<Rightarrow> Inl (ValueError (''Unknown level: '' @ name))
      | Some lv \<Rightarrow> Inr lv)"

definition modify_logger :: "string \<Rightarrow> (logger \<Rightarrow> logger) \<Rightarrow> logging \<Rightarrow> logging" where
  "modify_logger r f st =
     st\<lparr>loggers := (\<lambda>k. if k = r then map_option f (loggers st k) else loggers st k)\<rparr>"

definition handlers_of :: "string \<Rightarrow> logging \<Rightarrow> handler list" where
  "handlers_of r st = (case loggers st r of None \<Rightarrow> [] | Some lg \<Rightarrow> handlers lg)"

text \<open>
  \<open>logger.addHandler(h)\<close> appends \<open>h\<close> unless that object is in the list already; the
  handlers \<open>setup_logger\<close> adds are new objects, so they are appended.
\<close>

definition addHandler :: "string \<Rightarrow> handler \<Rightarrow> logging \<Rightarrow> logging" where
  "addHandler r h st = modify_logger r (\<lambda>lg. lg\<lparr>handlers := handlers lg @ [h]\<rparr>) st"

definition path_join :: "string \<Rightarrow> string \<Rightarrow> string" where
  "path_join dir name =
     (if dir = [] then name
      else if last dir = CHR ''/'' then dir @ name
      else dir @ ''/'' @ name)"

definition setup_logger :: "log_env \<Rightarrow> string \<Rightarrow> logging \<Rightarrow> (error + string) \<times> logging" where
  "setup_logger E name st =
     (case cache st name of
        Some r \<Rightarrow> (Inr r, st)
      | None \<Rightarrow>
          (case getLogger name st of
             (r, st1) \<Rightarrow>
               (case check_level (LOG_LEVEL E) of
                  Inl e \<Rightarrow> (Inl e, st1)
                | Inr lv \<Rightarrow>
                    (let st2 = modify_logger r (\<lambda>lg. lg\<lparr>level := lv\<rparr>) st1
                     in case (if handlers_of r st2 = [] then
                                (let st3 = addHandler r (StreamHandler lv) st2
                                 in if file_opens E then
                                      (Inr (),
                                       addHandler r
                                         (FileHandler
                                            (path_join (LOG_DIR E) (''test_run_'' @ utcnow E @ ''.log''))
                                            lv)
                                         st3)
                                    else (Inl OSError, st3))
                              else (Inr (), st2)) of
                          (Inl e, st4) \<Rightarrow> (Inl e, st4)
                        | (Inr _, st4) \<Rightarrow>
                            (let st5 = modify_logger r (\<lambda>lg. lg\<lparr>propagate := False\<rparr>) st4
                             in (Inr r, st5\<lparr>cache := (cache st5)(name \<mapsto> r)\<rparr>))))))"

text \<open>A process calling \<open>setup_logger\<close> again and again; a call that raises is survived.\<close>

fun setup_calls :: "(log_env \<times> string) list \<Rightarrow> logging \<Rightarrow> logging" where
  "setup_calls [] st = st"
| "setup_calls ((E, name) # cs) st = setup_calls cs (snd (setup_logger E name st))"

definition console_handlers :: "handler list \<Rightarrow> nat" where
  "console_handlers hs = length (filter (\<lambda>h. case h of StreamHandler _ \<Rightarrow> True | FileHandler _ _ \<Rightarrow> False) hs)"

definition file_handlers :: "handler list \<Rightarrow> nat" where
  "file_handlers hs = length (filter (\<lambda>h. case h of StreamHandler _ \<Rightarrow> False | FileHandler _ _ \<Rightarrow> True) hs)"

section \<open>Pages to run the page objects on\<close>

text \<open>
  Modelled from the spec: the inventory page of the shop under test, an external site that
  is not part of the repository. The shop sells six items. Each item not yet in the cart
  shows one "add" button; clicking the first one puts that item in the cart and removes
  the button; the cart badge shows the number of items in the cart. An empty cart has no
  badge, or, where \<open>shows_zero\<close> is set, a visible badge reading 0. The page has no text
  inputs.
\<close>

record shop =
  in_cart :: nat
  shows_zero :: bool

definition add_btns :: "shop \<Rightarrow> nat" where
  "add_btns s = 6 - in_cart s"

definition badge_shown :: "shop \<Rightarrow> bool" where
  "badge_shown s = (0 < in_cart s \<or> shows_zero s)"

definition shop_browser :: "shop browser" where
  "shop_browser =
     \<lparr>loc_count = (\<lambda>l s. if l = add_buttons then add_btns s
                          else if l = First add_buttons then min 1 (add_btns s)
                          else if l = cart_badge \<and> badge_shown s then 1
                          else 0),
      loc_is_visible = (\<lambda>l s. (l = cart_badge \<and> badge_shown s)
                              \<or> (l = First add_buttons \<and> 0 < add_btns s)),
      loc_input_value = (\<lambda>l s. []),
      loc_text_content = (\<lambda>l s. if l = cart_badge \<and> badge_shown s
                                 then Inr (Some (str (int (in_cart s))))
                                 else Inl TimeoutError),
      loc_click = (\<lambda>l force s. if l = First add_buttons \<and> 0 < add_btns s
                                then Inr (s\<lparr>in_cart := in_cart s + 1\<rparr>)
                                else Inl TimeoutError),
      loc_fill = (\<lambda>l text s. Inl TimeoutError),
      expect_to_be_visible = (\<lambda>l timeout s. if l = cart_badge \<and> badge_shown s then Inr s
                                             else Inl (AssertionError ''Locator expected to be visible''))\<rparr>"

text \<open>
  A page of text inputs and buttons that stays open for \<open>open_for\<close> more actions and then
  closes: an action on the closed page raises. Filling an input sets its value; a click
  changes nothing on the page.
\<close>

record form =
  field_values :: "locator \<Rightarrow> string"
  open_for :: nat

definition form_browser :: "form browser" where
  "form_browser =
     \<lparr>loc_count = (\<lambda>l s. if 0 < open_for s then 1 else 0),
      loc_is_visible = (\<lambda>l s. 0 < open_for s),
      loc_input_value = (\<lambda>l s. field_values s l),
      loc_text_content = (\<lambda>l s. if 0 < open_for s then Inr None else Inl TargetClosedError),
      loc_click = (\<lambda>l force s. if 0 < open_for s then Inr (s\<lparr>open_for := open_for s - 1\<rparr>)
                                else Inl TargetClosedError),
      loc_fill = (\<lambda>l text s. if 0 < open_for s
                              then Inr (s\<lparr>field_values := (field_values s)(l := text),
                                          open_for := open_for s - 1\<rparr>)
                              else Inl TargetClosedError),
      expect_to_be_visible = (\<lambda>l timeout s. if 0 < open_for s then Inr s
                                             else Inl TargetClosedError)\<rparr>"

section \<open>The vocabulary of the properties\<close>

text \<open>The click the two cart loops perform: \<^verbatim>\<open>self.click(self.add_buttons.first)\<close>.\<close>

definition add_click :: event where
  "add_click = Click (First add_buttons) False"

text \<open>
  The page behaviour the spec describes: while an "add" button is left, clicking the first
  one succeeds and takes exactly one button away.
\<close>

definition each_click_removes_one :: "'s browser \<Rightarrow> bool" where
  "each_click_removes_one B =
     (\<forall>s. 0 < loc_count B add_buttons s \<longrightarrow>
          (\<exists>s'. loc_click B (First add_buttons) False s = Inr s' \<and>
                loc_count B add_buttons s' = loc_count B add_buttons s - 1))"

text \<open>The page after \<open>k\<close> clicks on the first "add" button (a failed click ends them).\<close>

fun after_clicks :: "'s browser \<Rightarrow> nat \<Rightarrow> 's \<Rightarrow> 's" where
  "after_clicks B 0 s = s"
| "after_clicks B (Suc k) s =
     (case loc_click B (First add_buttons) False s of
        Inl e \<Rightarrow> s
      | Inr s' \<Rightarrow> after_clicks B k s')"

text \<open>
  A trace re-queries the count before each click when every click on the first "add"
  button comes right after a count of the "add" buttons.
\<close>

fun count_before_each_click :: "event option \<Rightarrow> event list \<Rightarrow> bool" where
  "count_before_each_click prev [] = True"
| "count_before_each_click prev (e # es) =
     ((if e = add_click then prev = Some (Count add_buttons) else True)
      \<and> count_before_each_click (Some e) es)"

text \<open>The trace of \<open>k\<close> rounds of the \<open>while\<close> loop: count, click, and so on.\<close>

fun count_click_rounds :: "nat \<Rightarrow> event list" where
  "count_click_rounds 0 = []"
| "count_click_rounds (Suc k) = Count add_buttons # add_click # count_click_rounds k"

text \<open>A browser whose inputs hold what was last written to them.\<close>

definition fill_sets_value :: "'s browser \<Rightarrow> bool" where
  "fill_sets_value B =
     (\<forall>l text s s'. loc_fill B l text s = Inr s' \<longrightarrow> loc_input_value B l s' = text)"

text \<open>What \<open>get_text\<close> makes of the \<open>text_content\<close> of an element.\<close>

definition read_text :: "string option \<Rightarrow> string" where
  "read_text v = strip (case v of None \<Rightarrow> [] | Some x \<Rightarrow> x)"

text \<open>The surroundings of a test run, and of the same run five minutes later.\<close>

definition run_env :: log_env where
  "run_env = \<lparr>LOG_LEVEL = ''INFO'', LOG_DIR = ''logs'', utcnow = ''20240101_120000'',
              file_opens = True\<rparr>"

definition later_env :: log_env where
  "later_env = \<lparr>LOG_LEVEL = ''INFO'', LOG_DIR = ''logs'', utcnow = ''20240101_120500'',
                file_opens = True\<rparr>"

section \<open>Properties of the settings\<close>

lemma dropWhile_idem: "dropWhile P (dropWhile P xs) = dropWhile P xs"
  by (induction xs) auto

lemma strip_no_leading_space: "dropWhile isspace (strip s) = strip s"
proof -
  define t where "t = dropWhile isspace s"
  define u where "u = dropWhile isspace (rev t)"
  have su: "strip s = rev u" by (simp add: strip_def t_def u_def)
  have "rev t = takeWhile isspace (rev t) @ u" by (simp add: u_def)
  then have "rev (rev t) = rev (takeWhile isspace (rev t) @ u)" by simp
  then have t: "t = rev u @ rev (takeWhile isspace (rev t))" by simp
  show ?thesis
  proof (cases "rev u = []")
    case True
    then show ?thesis by (simp add: su)
  next
    case False
    then have "hd (rev u) = hd t" using t by (metis hd_append2)
    moreover have "t \<noteq> []" using False t by auto
    then have "\<not> isspace (hd t)" unfolding t_def by (rule hd_dropWhile)
    ultimately have "\<not> isspace (hd (rev u))" by simp
    then show ?thesis using False by (simp add: su dropWhile_eq_self_iff)
  qed
qed

lemma strip_idem: "strip (strip s) = strip s"
proof -
  have "strip (strip s) = rev (dropWhile isspace (rev (strip s)))"
    using strip_no_leading_space[of s] by (simp add: strip_def)
  also have "\<dots> = strip s" by (simp add: strip_def dropWhile_idem)
  finally show ?thesis .
qed

lemma split_no_sep: "sep \<notin> set x \<Longrightarrow> split sep x = [x]"
  by (induction x) auto

lemma split_not_Nil: "split sep s \<noteq> []"
  by (induction s) (auto split: list.splits)

lemma split_append_sep: "sep \<notin> set x \<Longrightarrow> split sep (x @ sep # rest) = x # split sep rest"
  by (induction x) (auto split: list.splits simp: split_not_Nil)

lemma join_Cons: "join sep (x # xs) = (if xs = [] then x else x @ sep # join sep xs)"
  by (cases xs) auto

lemma strip_Nil: "strip [] = []"
  by (simp add: strip_def)

lemma expected_airports_field:
  "CHR '','' \<notin> set x \<Longrightarrow>
   expected_airports x = filter (\<lambda>e. e \<noteq> []) [strip x]"
  by (simp add: expected_airports_def split_no_sep)

lemma expected_airports_first_field:
  "CHR '','' \<notin> set x \<Longrightarrow>
   expected_airports (x @ CHR '','' # rest) =
     filter (\<lambda>e. e \<noteq> []) [strip x] @ expected_airports rest"
  by (simp add: expected_airports_def split_append_sep)

lemma expected_airports_join:
  "(\<forall>x\<in>set xs. CHR '','' \<notin> set x) \<Longrightarrow>
   expected_airports (join (CHR '','') xs) = filter (\<lambda>e. e \<noteq> []) (map strip xs)"
proof (induction xs)
  case Nil
  then show ?case by (simp add: expected_airports_def strip_Nil)
next
  case (Cons x xs)
  then have IH: "expected_airports (join (CHR '','') xs) = filter (\<lambda>e. e \<noteq> []) (map strip xs)"
    by simp
  from Cons.prems have x: "CHR '','' \<notin> set x" by simp
  show ?case
  proof (cases "xs = []")
    case True
    then show ?thesis using expected_airports_field[OF x] by simp
  next
    case False
    then have "join (CHR '','') (x # xs) = x @ CHR '','' # join (CHR '','') xs"
      by (simp add: join_Cons)
    then show ?thesis using expected_airports_first_field[OF x] IH by simp
  qed
qed

lemma join_split: "join sep (split sep s) = s"
proof (induction s)
  case Nil
  then show ?case by simp
next
  case (Cons c cs)
  obtain w ws where sp: "split sep cs = w # ws"
    using split_not_Nil[of sep cs] by (cases "split sep cs") auto
  with Cons have IH: "join sep (w # ws) = cs" by simp
  show ?case
  proof (cases "c = sep")
    case True
    then show ?thesis using sp IH by (simp add: join_Cons)
  next
    case False
    then have "join sep (split sep (c # cs)) = join sep ((c # w) # ws)" using sp by simp
    also have "\<dots> = c # join sep (w # ws)" by (simp add: join_Cons)
    finally show ?thesis using IH by simp
  qed
qed

lemma split_fields_no_sep: "x \<in> set (split sep s) \<Longrightarrow> sep \<notin> set x"
  by (induction s arbitrary: x) (auto split: if_splits list.splits)

lemma expected_airports_entry: "e \<in> set (expected_airports csv) \<Longrightarrow> e \<noteq> [] \<and> strip e = e"
  by (auto simp: expected_airports_def strip_idem)

lemmas strip_eval = strip_def isspace_def whitespace_def

text \<open>
  C6, as the spec states it: the parsed list of expected airports never holds a name twice.
  It fails: \<open>"A,A"\<close> parses to \<open>["A", "A"]\<close>, the comprehension has no step that removes
  duplicates.
\<close>

theorem expected_airports_duplicate_counterexample:
  "expected_airports ''A,A'' = [''A'', ''A''] \<and> \<not> distinct (expected_airports ''A,A'')"
  by (simp add: expected_airports_def strip_eval)

text \<open>
  C6, amended: for every comma-separated input, no entry of the parsed list is blank (each
  is non-empty and whitespace-trimmed), and duplicates are not removed: the parsed list is
  exactly the comma-separated fields, each trimmed, without the blank ones, every
  occurrence kept in input order. This is stated for the fields \<open>xs\<close> an input is made of,
  and it reaches every input, since every string is the join of its comma-free fields.
\<close>

theorem expected_airports_drops_blanks_keeps_duplicates:
  "(\<forall>e\<in>set (expected_airports csv). e \<noteq> [] \<and> strip e = e) \<and>
   (\<forall>xs. (\<forall>x\<in>set xs. CHR '','' \<notin> set x) \<longrightarrow>
         expected_airports (join (CHR '','') xs) = filter (\<lambda>e. e \<noteq> []) (map strip xs)) \<and>
   (\<exists>xs. (\<forall>x\<in>set xs. CHR '','' \<notin> set x) \<and> csv = join (CHR '','') xs)"
proof (intro conjI)
  show "\<forall>e\<in>set (expected_airports csv). e \<noteq> [] \<and> strip e = e"
    using expected_airports_entry by blast
  show "\<forall>xs. (\<forall>x\<in>set xs. CHR '','' \<notin> set x) \<longrightarrow>
         expected_airports (join (CHR '','') xs) = filter (\<lambda>e. e \<noteq> []) (map strip xs)"
    using expected_airports_join by blast
  have "\<forall>x\<in>set (split (CHR '','') csv). CHR '','' \<notin> set x"
    using split_fields_no_sep by blast
  moreover have "csv = join (CHR '','') (split (CHR '','') csv)"
    by (simp add: join_split)
  ultimately show "\<exists>xs. (\<forall>x\<in>set xs. CHR '','' \<notin> set x) \<and> csv = join (CHR '','') xs"
    by blast
qed

theorem expected_airports_drops_blanks_keeps_duplicates_witness:
  "''B'' \<in> set (expected_airports ''A, ,B'') \<and> ''B'' \<noteq> [] \<and> strip ''B'' = ''B'' \<and>
   CHR '','' \<notin> set ''A'' \<and> CHR '','' \<notin> set '' A'' \<and> CHR '','' \<notin> set '' '' \<and>
   join (CHR '','') [''A'', '' A'', '' '', ''A''] = ''A, A, ,A'' \<and>
   expected_airports ''A, A, ,A'' = [''A'', ''A'', ''A'']"
proof -
  have mem: "''B'' \<in> set (expected_airports ''A, ,B'')"
    by (simp add: expected_airports_def strip_eval)
  have fields: "\<forall>x\<in>set [''A'', '' A'', '' '', ''A'']. CHR '','' \<notin> set x"
    by simp
  have joined: "join (CHR '','') [''A'', '' A'', '' '', ''A''] = ''A, A, ,A''"
    by simp
  from expected_airports_drops_blanks_keeps_duplicates [of "''A, ,B''"] mem
  have "''B'' \<noteq> [] \<and> strip ''B'' = ''B''" by blast
  moreover from expected_airports_drops_blanks_keeps_duplicates [of "''A, ,B''"] fields
  have "expected_airports (join (CHR '','') [''A'', '' A'', '' '', ''A''])
          = filter (\<lambda>e. e \<noteq> []) (map strip [''A'', '' A'', '' '', ''A''])"
    by blast
  then have "expected_airports ''A, A, ,A'' = [''A'', ''A'', ''A'']"
    by (simp add: joined strip_eval)
  ultimately show ?thesis using mem joined by simp
qed

text \<open>
  C7: the CSV string \<open>"A, B ,,C"\<close> parses to exactly \<open>["A", "B", "C"]\<close>; in general the
  result is the comma-separated fields, each trimmed, without those that are empty after
  trimming, in their original order.
\<close>

theorem expected_airports_example:
  "expected_airports ''A, B ,,C'' = [''A'', ''B'', ''C''] \<and>
   expected_airports csv = filter (\<lambda>e. e \<noteq> []) (map strip (split (CHR '','') csv))"
  by (simp add: expected_airports_def strip_eval filter_map o_def)

section \<open>Properties of the inventory page\<close>

lemma click_add_ok:
  "loc_click B (First add_buttons) False s = Inr s' \<Longrightarrow>
   click B (Loc (First add_buttons)) False (s, t) = (Inr (), (s', t @ [add_click]))"
  by (simp add: click_def act_def ensure_locator_def add_click_def)

lemma click_add_fail:
  "loc_click B (First add_buttons) False s = Inl e \<Longrightarrow>
   click B (Loc (First add_buttons)) False (s, t) = (Inl e, (s, t @ [add_click]))"
  by (simp add: click_def act_def ensure_locator_def add_click_def record_event_def)

lemma click_loop_trace:
  "\<exists>j\<le>k. snd (snd (click_loop B k added (s, t))) = t @ replicate j add_click"
proof (induction k arbitrary: added s t)
  case 0
  then show ?case by simp
next
  case (Suc k)
  show ?case
  proof (cases "loc_click B (First add_buttons) False s")
    case (Inl e)
    then have "snd (snd (click_loop B (Suc k) added (s, t))) = t @ replicate 1 add_click"
      by (simp add: click_add_fail)
    then show ?thesis by (metis Suc_leI zero_less_Suc One_nat_def)
  next
    case (Inr s')
    from Suc.IH[of "added + 1" s' "t @ [add_click]"] obtain j where
      j: "j \<le> k" "snd (snd (click_loop B k (added + 1) (s', t @ [add_click]))) = (t @ [add_click]) @ replicate j add_click"
      by blast
    have "snd (snd (click_loop B (Suc k) added (s, t))) = t @ replicate (Suc j) add_click"
      using Inr j(2) by (simp add: click_add_ok)
    then show ?thesis using j(1) by (metis Suc_le_mono)
  qed
qed

lemma click_loop_ok:
  "each_click_removes_one B \<Longrightarrow> k \<le> loc_count B add_buttons s \<Longrightarrow>
   click_loop B k added (s, t) = (Inr (added + int k), (after_clicks B k s, t @ replicate k add_click))
   \<and> loc_count B add_buttons (after_clicks B k s) = loc_count B add_buttons s - k"
proof (induction k arbitrary: added s t)
  case 0
  then show ?case by simp
next
  case (Suc k)
  then have "0 < loc_count B add_buttons s" by simp
  with Suc.prems(1) obtain s' where
    s': "loc_click B (First add_buttons) False s = Inr s'"
        "loc_count B add_buttons s' = loc_count B add_buttons s - 1"
    unfolding each_click_removes_one_def by blast
  have "k \<le> loc_count B add_buttons s'" using Suc.prems(2) s'(2) by simp
  from Suc.IH[OF Suc.prems(1) this, of "added + 1" "t @ [add_click]"]
  show ?case using s' by (simp add: click_add_ok replicate_append_same)
qed

lemma locator_count_eq:
  "locator_count B l (s, t) = (loc_count B l s, (s, t @ [Count l]))"
  by (simp add: locator_count_def record_event_def)

lemma add_items_to_cart_ok:
  assumes "each_click_removes_one B"
  shows "add_items_to_cart B n (s, t) =
     (Inr (max 0 (min n (int (loc_count B add_buttons s)))),
      (after_clicks B (nat (min n (int (loc_count B add_buttons s)))) s,
       t @ Count add_buttons # replicate (nat (min n (int (loc_count B add_buttons s)))) add_click))"
proof -
  let ?k = "nat (min n (int (loc_count B add_buttons s)))"
  have "?k \<le> loc_count B add_buttons s" by simp
  from click_loop_ok[OF assms this, of 0 "t @ [Count add_buttons]"]
  show ?thesis by (simp add: add_items_to_cart_def locator_count_eq max_def min_def)
qed

lemma add_all_loop_ok:
  "each_click_removes_one B \<Longrightarrow> loc_count B add_buttons s = k \<Longrightarrow>
   add_all_loop B added (s, t) =
     Some (Inr (added + int k), (after_clicks B k s, t @ count_click_rounds k @ [Count add_buttons]))
   \<and> loc_count B add_buttons (after_clicks B k s) = 0"
proof (induction k arbitrary: added s t)
  case 0
  then show ?case by (subst add_all_loop.simps) (simp add: locator_count_eq)
next
  case (Suc k)
  then have "0 < loc_count B add_buttons s" by simp
  with Suc.prems(1) obtain s' where
    s': "loc_click B (First add_buttons) False s = Inr s'"
        "loc_count B add_buttons s' = loc_count B add_buttons s - 1"
    unfolding each_click_removes_one_def by blast
  have "loc_count B add_buttons s' = k" using Suc.prems(2) s'(2) by simp
  from Suc.IH[OF Suc.prems(1) this, of "added + 1" "t @ [Count add_buttons, add_click]"]
  show ?case using s' Suc.prems(2)
    by (subst add_all_loop.simps) (simp add: locator_count_eq click_add_ok)
qed

lemma add_all_loop_partial:
  assumes "add_all_loop B added w = Some y"
  shows "\<forall>n s' t'. y = (Inr n, (s', t')) \<longrightarrow>
      loc_count B add_buttons s' = 0 \<and>
      (\<exists>k. n = added + int k \<and> t' = snd w @ count_click_rounds k @ [Count add_buttons])"
proof (rule add_all_loop.raw_induct
    [where P = "\<lambda>B added w y. \<forall>n s' t'. y = (Inr n, (s', t')) \<longrightarrow>
      loc_count B add_buttons s' = 0 \<and>
      (\<exists>k. n = added + int k \<and> t' = snd w @ count_click_rounds k @ [Count add_buttons])",
     OF _ assms])
  fix loop :: "'s browser \<Rightarrow> int \<Rightarrow> 's world \<Rightarrow> ((error + int) \<times> 's world) option"
  fix B added w y
  assume IH: "\<And>B added w y. loop B added w = Some y \<Longrightarrow>
      \<forall>n s' t'. y = (Inr n, (s', t')) \<longrightarrow>
      loc_count B add_buttons s' = 0 \<and>
      (\<exists>k. n = added + int k \<and> t' = snd w @ count_click_rounds k @ [Count add_buttons])"
  assume step: "(case locator_count B add_buttons w of
        (n, w1) \<Rightarrow>
          if n > 0 then
            (case click B (Loc (First add_buttons)) False w1 of
               (Inl e, w2) \<Rightarrow> Some (Inl e, w2)
             | (Inr _, w2) \<Rightarrow> loop B (added + 1) w2)
          else Some (Inr added, w1)) = Some y"
  obtain s t where w: "w = (s, t)" by (cases w)
  show "\<forall>n s' t'. y = (Inr n, (s', t')) \<longrightarrow>
      loc_count B add_buttons s' = 0 \<and>
      (\<exists>k. n = added + int k \<and> t' = snd w @ count_click_rounds k @ [Count add_buttons])"
  proof (cases "0 < loc_count B add_buttons s")
    case False
    with step w have y: "y = (Inr added, (s, t @ [Count add_buttons]))"
      by (simp add: locator_count_eq)
    have "added = added + int 0 \<and> t @ [Count add_buttons] = snd w @ count_click_rounds 0 @ [Count add_buttons]"
      using w by simp
    then show ?thesis using False y by blast
  next
    case True
    show ?thesis
    proof (cases "loc_click B (First add_buttons) False s")
      case (Inl e)
      with step w True have "y = (Inl e, (s, t @ [Count add_buttons, add_click]))"
        by (simp add: locator_count_eq click_add_fail)
      then show ?thesis by simp
    next
      case (Inr s1)
      with step w True have rec: "loop B (added + 1) (s1, t @ [Count add_buttons, add_click]) = Some y"
        by (simp add: locator_count_eq click_add_ok)
      show ?thesis
      proof (intro allI impI)
        fix n s' t' assume y: "y = (Inr n, (s', t'))"
        from IH[OF rec] y obtain k where
          k: "loc_count B add_buttons s' = 0" "n = added + 1 + int k"
             "t' = (t @ [Count add_buttons, add_click]) @ count_click_rounds k @ [Count add_buttons]"
          by auto
        have "n = added + int (Suc k)" using k(2) by simp
        moreover have "t' = snd w @ count_click_rounds (Suc k) @ [Count add_buttons]"
          using k(3) w by simp
        ultimately show "loc_count B add_buttons s' = 0 \<and>
          (\<exists>k. n = added + int k \<and> t' = snd w @ count_click_rounds k @ [Count add_buttons])"
          using k(1) by blast
      qed
    qed
  qed
qed

lemma shop_count [simp]: "loc_count shop_browser add_buttons s = add_btns s"
  by (simp add: shop_browser_def)

lemma shop_click:
  "0 < add_btns s \<Longrightarrow>
   loc_click shop_browser (First add_buttons) False s = Inr (s\<lparr>in_cart := in_cart s + 1\<rparr>)"
  by (simp add: shop_browser_def)

lemma shop_each_click_removes_one: "each_click_removes_one shop_browser"
  unfolding each_click_removes_one_def
  by (auto simp: shop_click) (simp add: add_btns_def)

lemma shop_after_clicks:
  "k \<le> add_btns s \<Longrightarrow> after_clicks shop_browser k s = s\<lparr>in_cart := in_cart s + k\<rparr>"
proof (induction k arbitrary: s)
  case 0
  then show ?case by simp
next
  case (Suc k)
  then have pos: "0 < add_btns s" by simp
  have "k \<le> add_btns (s\<lparr>in_cart := in_cart s + 1\<rparr>)"
    using Suc.prems by (simp add: add_btns_def)
  from Suc.IH[OF this] show ?case by (simp add: shop_click[OF pos])
qed

lemma str_6: "str 6 = ''6''"
  by (simp add: str_def digits.simps digit_char_def)

lemmas page_eval =
  add_items_to_cart_def locator_count_def record_event_def click_def act_def ensure_locator_def
  shop_browser_def add_btns_def badge_shown_def add_click_def add_buttons_def cart_badge_def

text \<open>
  C1, as the spec states it: for every requested number \<open>n\<close>, \<open>add_items_to_cart(n)\<close>
  returns \<open>min(n, a)\<close>, with \<open>a\<close> the number of "add" buttons at the call. It fails for a
  negative \<open>n\<close>: on the page with six buttons \<open>add_items_to_cart(-1)\<close> returns 0, since
  \<open>range(-1)\<close> is empty, while \<open>min(-1, 6)\<close> is \<open>-1\<close>.
\<close>

theorem add_items_to_cart_negative_counterexample:
  "fst (add_items_to_cart shop_browser (- 1) (\<lparr>in_cart = 0, shows_zero = False\<rparr>, [])) = Inr 0 \<and>
   min (- 1) (int (loc_count shop_browser add_buttons \<lparr>in_cart = 0, shows_zero = False\<rparr>)) = - 1"
  by (simp add: page_eval)

text \<open>
  C1, amended: on a page where each click on the first "add" button succeeds and removes
  exactly that button, \<open>add_items_to_cart(n)\<close> never raises and returns
  \<open>max(0, min(n, a))\<close>: exactly \<open>n\<close> for \<open>0 \<le> n \<le> a\<close>, \<open>a\<close> for every \<open>n > a\<close>, and 0 for
  a negative \<open>n\<close>.
\<close>

theorem add_items_to_cart_returns_capped:
  assumes "each_click_removes_one B"
  shows "fst (add_items_to_cart B n (s, t)) =
           Inr (max 0 (min n (int (loc_count B add_buttons s))))"
  by (simp add: add_items_to_cart_ok[OF assms])

theorem add_items_to_cart_returns_capped_witness:
  "each_click_removes_one shop_browser \<and>
   fst (add_items_to_cart shop_browser 9 (\<lparr>in_cart = 0, shows_zero = False\<rparr>, [])) = Inr 6 \<and>
   fst (add_items_to_cart shop_browser 2 (\<lparr>in_cart = 0, shows_zero = False\<rparr>, [])) = Inr 2"
  using add_items_to_cart_returns_capped
          [OF shop_each_click_removes_one, of 9 "\<lparr>in_cart = 0, shows_zero = False\<rparr>" "[]"]
        add_items_to_cart_returns_capped
          [OF shop_each_click_removes_one, of 2 "\<lparr>in_cart = 0, shows_zero = False\<rparr>" "[]"]
        shop_each_click_removes_one
  by (simp add: add_btns_def)

text \<open>
  C2, as the spec states it: \<open>add_items_to_cart\<close> re-queries the live count of "add"
  buttons before each click. It fails: asked for two items on the page with six buttons,
  the method counts once and then clicks twice, so the second click does not follow a
  count.
\<close>

theorem add_items_to_cart_requery_counterexample:
  "snd (snd (add_items_to_cart shop_browser 2 (\<lparr>in_cart = 0, shows_zero = False\<rparr>, [])))
     = [Count add_buttons, add_click, add_click] \<and>
   \<not> count_before_each_click None
       (snd (snd (add_items_to_cart shop_browser 2 (\<lparr>in_cart = 0, shows_zero = False\<rparr>, []))))"
proof -
  have tr: "snd (snd (add_items_to_cart shop_browser 2 (\<lparr>in_cart = 0, shows_zero = False\<rparr>, [])))
     = [Count add_buttons, add_click, add_click]"
    by (simp add: add_items_to_cart_ok[OF shop_each_click_removes_one] add_btns_def
          eval_nat_numeral)
  have "\<not> count_before_each_click None [Count add_buttons, add_click, add_click]"
    by (simp add: add_click_def)
  with tr show ?thesis by simp
qed

text \<open>
  C2, amended: \<open>add_items_to_cart(n)\<close> reads the count of "add" buttons once, before the
  first click, and keeps it for the whole loop: what it asks of the browser is one count
  followed only by clicks on the first "add" button, at most \<open>min(n, a)\<close> of them.
\<close>

theorem add_items_to_cart_counts_once:
  "\<exists>k. k \<le> nat (min n (int (loc_count B add_buttons s))) \<and>
       snd (snd (add_items_to_cart B n (s, t))) = t @ Count add_buttons # replicate k add_click"
proof -
  from click_loop_trace[where k = "nat (min n (int (loc_count B add_buttons s)))" and B = B
         and added = 0 and s = s and t = "t @ [Count add_buttons]"]
  show ?thesis by (auto simp: add_items_to_cart_def locator_count_eq)
qed

text \<open>
  C3: \<open>add_all_items_to_cart\<close> counts the "add" buttons anew in every round of its loop:
  whenever it returns, the browser was asked for a count before each click and once more at
  the end, that last count was zero, and the number returned is the number of clicks. When
  no button is left at the call it returns 0 at once. On a page where each click removes
  exactly one "add" button the loop terminates and returns the number of "add" buttons at
  the call.
\<close>

theorem add_all_items_to_cart_requeries_and_terminates:
  "(\<forall>n s' t'. add_all_items_to_cart B (s, t) = Some (Inr n, (s', t')) \<longrightarrow>
       loc_count B add_buttons s' = 0 \<and>
       (\<exists>k. n = int k \<and> t' = t @ count_click_rounds k @ [Count add_buttons])) \<and>
   (loc_count B add_buttons s = 0 \<longrightarrow>
       add_all_items_to_cart B (s, t) = Some (Inr 0, (s, t @ [Count add_buttons]))) \<and>
   (each_click_removes_one B \<longrightarrow>
       (\<exists>s'. add_all_items_to_cart B (s, t) =
               Some (Inr (int (loc_count B add_buttons s)),
                     (s', t @ count_click_rounds (loc_count B add_buttons s) @ [Count add_buttons]))
             \<and> loc_count B add_buttons s' = 0))"
proof (intro conjI allI impI)
  fix n s' t'
  assume "add_all_items_to_cart B (s, t) = Some (Inr n, (s', t'))"
  then have "add_all_loop B 0 (s, t) = Some (Inr n, (s', t'))"
    by (simp add: add_all_items_to_cart_def)
  from add_all_loop_partial[OF this]
  show "loc_count B add_buttons s' = 0"
    and "\<exists>k. n = int k \<and> t' = t @ count_click_rounds k @ [Count add_buttons]"
    by auto
next
  assume "loc_count B add_buttons s = 0"
  then show "add_all_items_to_cart B (s, t) = Some (Inr 0, (s, t @ [Count add_buttons]))"
    unfolding add_all_items_to_cart_def
    by (subst add_all_loop.simps) (simp add: locator_count_eq)
next
  assume "each_click_removes_one B"
  from add_all_loop_ok[OF this refl, where s = s and added = 0 and t = t]
  show "\<exists>s'. add_all_items_to_cart B (s, t) =
               Some (Inr (int (loc_count B add_buttons s)),
                     (s', t @ count_click_rounds (loc_count B add_buttons s) @ [Count add_buttons]))
             \<and> loc_count B add_buttons s' = 0"
    by (auto simp: add_all_items_to_cart_def)
qed

theorem add_all_items_to_cart_requeries_and_terminates_witness:
  "each_click_removes_one shop_browser \<and>
   (\<exists>s'. add_all_items_to_cart shop_browser (\<lparr>in_cart = 0, shows_zero = False\<rparr>, []) =
           Some (Inr 6, (s', count_click_rounds 6 @ [Count add_buttons]))
         \<and> loc_count shop_browser add_buttons s' = 0) \<and>
   loc_count shop_browser add_buttons \<lparr>in_cart = 6, shows_zero = False\<rparr> = 0 \<and>
   add_all_items_to_cart shop_browser (\<lparr>in_cart = 6, shows_zero = False\<rparr>, []) =
     Some (Inr 0, (\<lparr>in_cart = 6, shows_zero = False\<rparr>, [Count add_buttons]))"
  using add_all_items_to_cart_requeries_and_terminates
          [of shop_browser "\<lparr>in_cart = 0, shows_zero = False\<rparr>" "[]"]
        add_all_items_to_cart_requeries_and_terminates
          [of shop_browser "\<lparr>in_cart = 6, shows_zero = False\<rparr>" "[]"]
        shop_each_click_removes_one
  by (simp add: add_btns_def)

text \<open>
  C5: from a page of the shop with exactly six "add" buttons, \<open>add_all_items_to_cart()\<close>
  and \<open>add_items_to_cart(6)\<close> both return 6 and leave the same page, on which the cart
  badge is visible and reads 6, so that \<open>assert_cart_count(6)\<close> passes after either.
\<close>

theorem add_all_equals_add_six:
  assumes "loc_count shop_browser add_buttons s = 6"
  shows "\<exists>s' t1 t2.
           add_all_items_to_cart shop_browser (s, t) = Some (Inr 6, (s', t1)) \<and>
           add_items_to_cart shop_browser 6 (s, t) = (Inr 6, (s', t2)) \<and>
           loc_is_visible shop_browser cart_badge s' \<and>
           loc_text_content shop_browser cart_badge s' = Inr (Some ''6'') \<and>
           fst (assert_cart_count shop_browser 6 (s', t1)) = Inr () \<and>
           fst (assert_cart_count shop_browser 6 (s', t2)) = Inr ()"
proof -
  from assms have six: "add_btns s = 6" by simp
  then have empty: "in_cart s = 0" by (simp add: add_btns_def)
  let ?s' = "s\<lparr>in_cart := 6\<rparr>"
  have after: "after_clicks shop_browser 6 s = ?s'"
    using shop_after_clicks[of 6 s] six empty by simp
  have all: "add_all_items_to_cart shop_browser (s, t) =
      Some (Inr 6, (?s', t @ count_click_rounds 6 @ [Count add_buttons]))"
    using add_all_loop_ok[OF shop_each_click_removes_one assms, where added = 0 and t = t] after
    by (simp add: add_all_items_to_cart_def)
  have items: "add_items_to_cart shop_browser 6 (s, t) =
      (Inr 6, (?s', t @ Count add_buttons # replicate 6 add_click))"
    using add_items_to_cart_ok[OF shop_each_click_removes_one, where n = 6 and s = s and t = t] after six
    by simp
  have vis: "loc_is_visible shop_browser cart_badge ?s'"
    by (simp add: shop_browser_def badge_shown_def)
  have text6: "loc_text_content shop_browser cart_badge ?s' = Inr (Some ''6'')"
    by (simp add: shop_browser_def badge_shown_def str_6)
  have strip6: "strip ''6'' = ''6''" by (simp add: strip_eval)
  have ok: "fst (assert_cart_count shop_browser 6 (?s', tr)) = Inr ()" for tr
    by (simp add: assert_cart_count_def expect_visible_def get_text_def act_def
          ensure_locator_def record_event_def shop_browser_def badge_shown_def str_6 strip6)
  from all items vis text6 ok show ?thesis by blast
qed

theorem add_all_equals_add_six_witness:
  "loc_count shop_browser add_buttons \<lparr>in_cart = 0, shows_zero = False\<rparr> = 6 \<and>
   (\<exists>s' t1 t2.
      add_all_items_to_cart shop_browser (\<lparr>in_cart = 0, shows_zero = False\<rparr>, []) =
        Some (Inr 6, (s', t1)) \<and>
      add_items_to_cart shop_browser 6 (\<lparr>in_cart = 0, shows_zero = False\<rparr>, []) =
        (Inr 6, (s', t2)) \<and>
      loc_is_visible shop_browser cart_badge s' \<and>
      loc_text_content shop_browser cart_badge s' = Inr (Some ''6'') \<and>
      fst (assert_cart_count shop_browser 6 (s', t1)) = Inr () \<and>
      fst (assert_cart_count shop_browser 6 (s', t2)) = Inr ())"
proof -
  have six: "loc_count shop_browser add_buttons \<lparr>in_cart = 0, shows_zero = False\<rparr> = 6"
    by (simp add: add_btns_def)
  from six add_all_equals_add_six[OF six, of "[]"] show ?thesis by blast
qed

section \<open>Properties of the base page, the cart badge and the login page\<close>

lemma get_text_eq:
  "loc_text_content B (ensure_locator target) s = Inr v \<Longrightarrow>
   get_text B target (s, t) =
     (Inr (read_text v), (s, t @ [TextContent (ensure_locator target)]))"
  by (simp add: get_text_def read_text_def record_event_def Let_def)

lemma is_visible_eq:
  "is_visible B target (s, t) =
     (loc_is_visible B (ensure_locator target) s, (s, t @ [IsVisible (ensure_locator target)]))"
  by (simp add: is_visible_def record_event_def Let_def)

lemma expect_visible_ok:
  "expect_to_be_visible B (ensure_locator target) timeout s = Inr s1 \<Longrightarrow>
   expect_visible B target timeout (s, t) =
     (Inr (ensure_locator target), (s1, t @ [ExpectVisible (ensure_locator target) timeout]))"
  by (simp add: expect_visible_def act_def Let_def)

lemma expect_visible_fail:
  "expect_to_be_visible B (ensure_locator target) timeout s = Inl e \<Longrightarrow>
   expect_visible B target timeout (s, t) =
     (Inl e, (s, t @ [ExpectVisible (ensure_locator target) timeout]))"
  by (simp add: expect_visible_def act_def record_event_def Let_def)

lemma ensure_locator_simps [simp]:
  "ensure_locator (Loc l) = l" "ensure_locator (Sel sel) = Css sel"
  by (simp_all add: ensure_locator_def)

lemma py_int_0: "py_int ''0'' = Inr 0"
  by (simp add: py_int_def strip_eval parse_nat_def digit_val_def)

lemma read_text_0: "read_text (Some ''0'') = ''0''"
  by (simp add: read_text_def strip_eval)

lemma assert_cart_count_absent:
  "\<not> loc_is_visible B cart_badge s \<Longrightarrow>
   assert_cart_count B 0 (s, t) = (Inr (), (s, t @ [IsVisible cart_badge]))"
  by (simp add: assert_cart_count_def is_visible_eq cart_badge_def)

lemma assert_cart_count_zero_badge:
  "loc_is_visible B cart_badge s \<Longrightarrow> loc_text_content B cart_badge s = Inr (Some ''0'') \<Longrightarrow>
   assert_cart_count B 0 (s, t) = (Inr (), (s, t @ [IsVisible cart_badge, TextContent cart_badge]))"
proof -
  assume vis: "loc_is_visible B cart_badge s"
    and tc: "loc_text_content B cart_badge s = Inr (Some ''0'')"
  have gt: "get_text B (Loc cart_badge) (s, t @ [IsVisible cart_badge]) =
      (Inr ''0'', (s, (t @ [IsVisible cart_badge]) @ [TextContent cart_badge]))"
    using get_text_eq[of B "Loc cart_badge" s "Some ''0''" "t @ [IsVisible cart_badge]"] tc
    by (simp add: read_text_0)
  have iv: "is_visible B (Sel CART_BADGE) (s, t) = (True, (s, t @ [IsVisible cart_badge]))"
    using vis by (simp add: is_visible_eq cart_badge_def)
  show ?thesis
    unfolding assert_cart_count_def by (simp add: iv gt py_int_0)
qed

lemma assert_cart_count_hidden:
  assumes "expected \<noteq> 0" "expect_to_be_visible B cart_badge 10000 s = Inl e"
  shows "assert_cart_count B expected (s, t) = (Inl e, (s, t @ [ExpectVisible cart_badge 10000]))"
  using assms expect_visible_fail[of B "Loc cart_badge" 10000 s e t]
  by (simp add: assert_cart_count_def)

lemma assert_cart_count_compares:
  assumes "expected \<noteq> 0" "expect_to_be_visible B cart_badge 10000 s = Inr s1"
    and "loc_text_content B cart_badge s1 = Inr v"
  shows "assert_cart_count B expected (s, t) =
     ((if read_text v = str expected then Inr ()
       else Inl (AssertionError
                  (''Cart badge expected '' @ str expected @ '' got '' @ read_text v))),
      (s1, t @ [ExpectVisible cart_badge 10000, TextContent cart_badge]))"
proof -
  have ev: "expect_visible B (Loc cart_badge) 10000 (s, t) =
      (Inr cart_badge, (s1, t @ [ExpectVisible cart_badge 10000]))"
    using expect_visible_ok[of B "Loc cart_badge" 10000 s s1 t] assms(2) by simp
  have gt: "get_text B (Loc cart_badge) (s1, t @ [ExpectVisible cart_badge 10000]) =
      (Inr (read_text v), (s1, (t @ [ExpectVisible cart_badge 10000]) @ [TextContent cart_badge]))"
    using get_text_eq[of B "Loc cart_badge" s1 v] assms(3) by simp
  show ?thesis
    unfolding assert_cart_count_def using assms(1) by (simp add: ev gt)
qed

text \<open>
  C4: \<open>assert_cart_count(0)\<close> passes when the cart badge is not visible, and when it is
  visible and reads 0. For \<open>expected > 0\<close> the method first waits for the badge to be
  visible (a failed wait is raised as it is); once the badge is visible it reads the badge
  text as \<open>get_text\<close> returns it (trimmed, empty when there is none) and raises an
  \<open>AssertionError\<close> exactly when that text differs from \<open>str(expected)\<close>, with a message
  that names both.
\<close>

theorem assert_cart_count_behaviour:
  "(\<not> loc_is_visible B cart_badge s \<longrightarrow> fst (assert_cart_count B 0 (s, t)) = Inr ()) \<and>
   (loc_is_visible B cart_badge s \<and> loc_text_content B cart_badge s = Inr (Some ''0'') \<longrightarrow>
      fst (assert_cart_count B 0 (s, t)) = Inr ()) \<and>
   (0 < expected \<and> expect_to_be_visible B cart_badge 10000 s = Inl e \<longrightarrow>
      assert_cart_count B expected (s, t) = (Inl e, (s, t @ [ExpectVisible cart_badge 10000]))) \<and>
   (0 < expected \<and> expect_to_be_visible B cart_badge 10000 s = Inr s1 \<and>
    loc_text_content B cart_badge s1 = Inr v \<longrightarrow>
      assert_cart_count B expected (s, t) =
        ((if read_text v = str expected then Inr ()
          else Inl (AssertionError
                     (''Cart badge expected '' @ str expected @ '' got '' @ read_text v))),
         (s1, t @ [ExpectVisible cart_badge 10000, TextContent cart_badge])))"
  using assert_cart_count_absent[of B s t] assert_cart_count_zero_badge[of B s t]
        assert_cart_count_hidden[of expected B s e t]
        assert_cart_count_compares[of expected B s s1 v t]
  by simp

lemma str_small: "str 0 = ''0''" "str 1 = ''1''" "str 2 = ''2''"
  by (simp_all add: str_def digits.simps digit_char_def)

lemma shop_badge_eval:
  "loc_is_visible shop_browser cart_badge s = badge_shown s"
  "expect_to_be_visible shop_browser cart_badge n s =
     (if badge_shown s then Inr s else Inl (AssertionError ''Locator expected to be visible''))"
  "loc_text_content shop_browser cart_badge s =
     (if badge_shown s then Inr (Some (str (int (in_cart s)))) else Inl TimeoutError)"
  by (simp_all add: shop_browser_def cart_badge_def add_buttons_def)

theorem assert_cart_count_behaviour_witness:
  "\<not> loc_is_visible shop_browser cart_badge \<lparr>in_cart = 0, shows_zero = False\<rparr> \<and>
   fst (assert_cart_count shop_browser 0 (\<lparr>in_cart = 0, shows_zero = False\<rparr>, [])) = Inr () \<and>
   loc_is_visible shop_browser cart_badge \<lparr>in_cart = 0, shows_zero = True\<rparr> \<and>
   loc_text_content shop_browser cart_badge \<lparr>in_cart = 0, shows_zero = True\<rparr> = Inr (Some ''0'') \<and>
   fst (assert_cart_count shop_browser 0 (\<lparr>in_cart = 0, shows_zero = True\<rparr>, [])) = Inr () \<and>
   fst (assert_cart_count shop_browser 2 (\<lparr>in_cart = 0, shows_zero = False\<rparr>, []))
     = Inl (AssertionError ''Locator expected to be visible'') \<and>
   fst (assert_cart_count shop_browser 2 (\<lparr>in_cart = 2, shows_zero = False\<rparr>, [])) = Inr () \<and>
   fst (assert_cart_count shop_browser 1 (\<lparr>in_cart = 2, shows_zero = False\<rparr>, []))
     = Inl (AssertionError ''Cart badge expected 1 got 2'')"
proof -
  let ?empty = "\<lparr>in_cart = 0, shows_zero = False\<rparr>"
  let ?zero = "\<lparr>in_cart = 0, shows_zero = True\<rparr>"
  let ?two = "\<lparr>in_cart = 2, shows_zero = False\<rparr>"
  have a: "\<not> loc_is_visible shop_browser cart_badge ?empty"
    by (simp add: shop_badge_eval badge_shown_def)
  have b: "loc_is_visible shop_browser cart_badge ?zero"
          "loc_text_content shop_browser cart_badge ?zero = Inr (Some ''0'')"
    by (simp_all add: shop_badge_eval badge_shown_def str_small)
  have c: "expect_to_be_visible shop_browser cart_badge 10000 ?empty
             = Inl (AssertionError ''Locator expected to be visible'')"
    by (simp add: shop_badge_eval badge_shown_def)
  have d: "expect_to_be_visible shop_browser cart_badge 10000 ?two = Inr ?two"
          "loc_text_content shop_browser cart_badge ?two = Inr (Some ''2'')"
    by (simp_all add: shop_badge_eval badge_shown_def str_small)
  have rt: "read_text (Some ''2'') = ''2''" by (simp add: read_text_def strip_eval)
  note th = assert_cart_count_behaviour
  from th[of shop_browser ?empty "[]"] a
  have 1: "fst (assert_cart_count shop_browser 0 (?empty, [])) = Inr ()" by blast
  from th[of shop_browser ?zero "[]"] b
  have 2: "fst (assert_cart_count shop_browser 0 (?zero, [])) = Inr ()" by blast
  from th[of shop_browser ?empty "[]" 2 "AssertionError ''Locator expected to be visible''"] c
  have 3: "fst (assert_cart_count shop_browser 2 (?empty, []))
     = Inl (AssertionError ''Locator expected to be visible'')" by simp
  from th[of shop_browser ?two "[]" 2 _ ?two "Some ''2''"] d
  have 4: "fst (assert_cart_count shop_browser 2 (?two, [])) = Inr ()"
    by (simp add: rt str_small)
  from th[of shop_browser ?two "[]" 1 _ ?two "Some ''2''"] d
  have 5: "fst (assert_cart_count shop_browser 1 (?two, []))
     = Inl (AssertionError ''Cart badge expected 1 got 2'')"
    by (simp add: rt str_small)
  from a b 1 2 3 4 5 show ?thesis by simp
qed

lemma fill_both:
  assumes "loc_fill B (ensure_locator target) [] s = Inr s1"
    and "loc_fill B (ensure_locator target) text s1 = Inr s2"
  shows "fill B target text True (s, t) =
     (Inr (), (s2, t @ [Fill (ensure_locator target) [], Fill (ensure_locator target) text]))"
  using assms by (simp add: fill_def act_def Let_def)

lemma fill_interrupted:
  assumes "loc_fill B (ensure_locator target) [] s = Inr s1"
    and "loc_fill B (ensure_locator target) text s1 = Inl e"
  shows "fill B target text True (s, t) =
     (Inl e, (s1, t @ [Fill (ensure_locator target) [], Fill (ensure_locator target) text]))"
  using assms by (simp add: fill_def act_def record_event_def Let_def)

lemma fill_clear_fails:
  assumes "loc_fill B (ensure_locator target) [] s = Inl e"
  shows "fill B target text True (s, t) = (Inl e, (s, t @ [Fill (ensure_locator target) []]))"
  using assms by (simp add: fill_def act_def record_event_def Let_def)

lemma form_fill_sets_value: "fill_sets_value form_browser"
  by (auto simp: fill_sets_value_def form_browser_def split: if_splits)

lemma form_fill:
  "loc_fill form_browser l text s =
     (if 0 < open_for s
      then Inr (s\<lparr>field_values := (field_values s)(l := text), open_for := open_for s - 1\<rparr>)
      else Inl TargetClosedError)"
  "loc_click form_browser l force s =
     (if 0 < open_for s then Inr (s\<lparr>open_for := open_for s - 1\<rparr>) else Inl TargetClosedError)"
  "loc_input_value form_browser l s = field_values s l"
  by (simp_all add: form_browser_def)

text \<open>
  C8: \<open>fill(target, text)\<close> with \<open>clear=True\<close> writes twice to the same element, first the
  empty string and then \<open>text\<close>, in that order. The two writes are separate browser calls:
  when the first has succeeded and the second raises, the exception is passed on and the
  page is left as the clearing write made it, so that in a browser whose inputs hold what
  was last written the field is empty. When the clearing write itself raises, nothing
  else is written.
\<close>

theorem fill_clears_then_writes:
  "(loc_fill B (ensure_locator target) [] s = Inr s1 \<and>
    loc_fill B (ensure_locator target) text s1 = Inr s2 \<longrightarrow>
      fill B target text True (s, t) =
        (Inr (), (s2, t @ [Fill (ensure_locator target) [], Fill (ensure_locator target) text]))) \<and>
   (loc_fill B (ensure_locator target) [] s = Inr s1 \<and>
    loc_fill B (ensure_locator target) text s1 = Inl e \<longrightarrow>
      fill B target text True (s, t) =
        (Inl e, (s1, t @ [Fill (ensure_locator target) [], Fill (ensure_locator target) text])) \<and>
      (fill_sets_value B \<longrightarrow> loc_input_value B (ensure_locator target) s1 = [])) \<and>
   (loc_fill B (ensure_locator target) [] s = Inl e \<longrightarrow>
      fill B target text True (s, t) = (Inl e, (s, t @ [Fill (ensure_locator target) []])))"
  using fill_both[of B target s s1 "text" s2 t] fill_interrupted[of B target s s1 "text" e t]
        fill_clear_fails[of B target s e "text" t]
  by (auto simp: fill_sets_value_def)

theorem fill_clears_then_writes_witness:
  "fst (fill form_browser (Sel ''#user-name'') ''abc'' True
          (\<lparr>field_values = (\<lambda>l. ''old''), open_for = 2\<rparr>, [])) = Inr () \<and>
   snd (snd (fill form_browser (Sel ''#user-name'') ''abc'' True
          (\<lparr>field_values = (\<lambda>l. ''old''), open_for = 2\<rparr>, [])))
     = [Fill (Css ''#user-name'') [], Fill (Css ''#user-name'') ''abc''] \<and>
   fill_sets_value form_browser \<and>
   fst (fill form_browser (Sel ''#user-name'') ''abc'' True
          (\<lparr>field_values = (\<lambda>l. ''old''), open_for = 1\<rparr>, [])) = Inl TargetClosedError \<and>
   loc_input_value form_browser (Css ''#user-name'')
     (fst (snd (fill form_browser (Sel ''#user-name'') ''abc'' True
          (\<lparr>field_values = (\<lambda>l. ''old''), open_for = 1\<rparr>, [])))) = [] \<and>
   fill form_browser (Sel ''#user-name'') ''abc'' True
          (\<lparr>field_values = (\<lambda>l. ''old''), open_for = 0\<rparr>, [])
     = (Inl TargetClosedError,
        (\<lparr>field_values = (\<lambda>l. ''old''), open_for = 0\<rparr>, [Fill (Css ''#user-name'') []]))"
proof -
  let ?l = "Css ''#user-name''"
  let ?old = "\<lambda>l::locator. ''old''"
  let ?s2 = "\<lparr>field_values = ?old, open_for = 2\<rparr>"
  let ?s1 = "\<lparr>field_values = ?old, open_for = 1\<rparr>"
  let ?s0 = "\<lparr>field_values = ?old, open_for = 0\<rparr>"
  note th = fill_clears_then_writes
  have a1: "loc_fill form_browser ?l [] ?s2 = Inr \<lparr>field_values = ?old(?l := []), open_for = 1\<rparr>"
    by (simp add: form_fill)
  have a2: "loc_fill form_browser ?l ''abc'' \<lparr>field_values = ?old(?l := []), open_for = 1\<rparr>
      = Inr \<lparr>field_values = (?old(?l := []))(?l := ''abc''), open_for = 0\<rparr>"
    by (simp add: form_fill)
  from th[of form_browser "Sel ''#user-name''" ?s2 _ "''abc''" _ "[]"] a1 a2
  have both: "fill form_browser (Sel ''#user-name'') ''abc'' True (?s2, [])
      = (Inr (), (\<lparr>field_values = (?old(?l := []))(?l := ''abc''), open_for = 0\<rparr>,
                  [Fill ?l [], Fill ?l ''abc'']))"
    by simp
  have b1: "loc_fill form_browser ?l [] ?s1 = Inr \<lparr>field_values = ?old(?l := []), open_for = 0\<rparr>"
    by (simp add: form_fill)
  have b2: "loc_fill form_browser ?l ''abc'' \<lparr>field_values = ?old(?l := []), open_for = 0\<rparr>
      = Inl TargetClosedError"
    by (simp add: form_fill)
  from th[of form_browser "Sel ''#user-name''" ?s1 _ "''abc''" _ "[]" TargetClosedError] b1 b2
       form_fill_sets_value
  have cut: "fill form_browser (Sel ''#user-name'') ''abc'' True (?s1, [])
      = (Inl TargetClosedError, (\<lparr>field_values = ?old(?l := []), open_for = 0\<rparr>,
                  [Fill ?l [], Fill ?l ''abc'']))"
    and empty: "loc_input_value form_browser ?l \<lparr>field_values = ?old(?l := []), open_for = 0\<rparr> = []"
    by simp_all
  have c1: "loc_fill form_browser ?l [] ?s0 = Inl TargetClosedError"
    by (simp add: form_fill)
  from th[of form_browser "Sel ''#user-name''" ?s0 _ "''abc''" _ "[]" TargetClosedError] c1
  have none: "fill form_browser (Sel ''#user-name'') ''abc'' True (?s0, [])
      = (Inl TargetClosedError, (?s0, [Fill ?l []]))"
    by simp
  from both cut empty none form_fill_sets_value show ?thesis by simp
qed

lemma click_eq:
  "click B target force (s, t) =
     (case loc_click B (ensure_locator target) force s of
        Inl e \<Rightarrow> (Inl e, (s, t @ [Click (ensure_locator target) force]))
      | Inr s' \<Rightarrow> (Inr (), (s', t @ [Click (ensure_locator target) force])))"
  by (simp add: click_def act_def record_event_def Let_def split: sum.splits)

lemma fill_trace_ok:
  "fill B target text True (s, t) = (Inr u, (s', t')) \<Longrightarrow>
   t' = t @ [Fill (ensure_locator target) [], Fill (ensure_locator target) text]"
  by (auto simp: fill_def act_def record_event_def Let_def split: sum.splits)

lemma or_default_eq:
  "or_default x d = (if x = None \<or> x = Some [] then d else the x)"
  by (cases x) (auto simp: or_default_def)

lemma login_trace_ok:
  assumes "fst (login B creds username_arg password_arg (s, t)) = Inr ()"
  shows "snd (snd (login B creds username_arg password_arg (s, t))) =
     t @ [Fill username_input [], Fill username_input (or_default username_arg (username creds)),
          Fill password_input [], Fill password_input (or_default password_arg (password creds)),
          Click login_button False]"
proof -
  let ?user = "or_default username_arg (username creds)"
  let ?pass = "or_default password_arg (password creds)"
  obtain r1 s1 t1 where f1: "fill B (Loc username_input) ?user True (s, t) = (r1, (s1, t1))"
    by (metis prod.exhaust)
  show ?thesis
  proof (cases r1)
    case (Inl e)
    with f1 assms show ?thesis by (simp add: login_def Let_def)
  next
    case (Inr u1)
    with f1 have t1: "t1 = t @ [Fill username_input [], Fill username_input ?user]"
      using fill_trace_ok[of B "Loc username_input" ?user s t u1 s1 t1] by simp
    obtain r2 s2 t2 where f2: "fill B (Loc password_input) ?pass True (s1, t1) = (r2, (s2, t2))"
      by (metis prod.exhaust)
    show ?thesis
    proof (cases r2)
      case (Inl e)
      with f1 f2 Inr assms show ?thesis by (simp add: login_def Let_def)
    next
      case r2: (Inr u2)
      with f2 have t2: "t2 = t1 @ [Fill password_input [], Fill password_input ?pass]"
        using fill_trace_ok[of B "Loc password_input" ?pass s1 t1 u2 s2 t2] by simp
      have "login B creds username_arg password_arg (s, t) = click B (Loc login_button) False (s2, t2)"
        using f1 f2 Inr r2 by (simp add: login_def Let_def)
      then show ?thesis using t1 t2
        by (simp add: click_eq split: sum.splits)
    qed
  qed
qed

text \<open>
  C10, as stated: since every falsy argument falls back to the configured default, no
  empty user name or password can be submitted through \<open>login()\<close>. It fails when the
  configured default is itself empty (\<open>SAUCE_USERNAME\<close> set to the empty string): the
  fallback then yields the empty string, the user name field is written empty and the
  login button is clicked.
\<close>

theorem login_empty_default_counterexample:
  "fst (login form_browser \<lparr>username = [], password = ''secret_sauce''\<rparr> (Some []) None
          (\<lparr>field_values = (\<lambda>l. ''old''), open_for = 5\<rparr>, [])) = Inr () \<and>
   snd (snd (login form_browser \<lparr>username = [], password = ''secret_sauce''\<rparr> (Some []) None
          (\<lparr>field_values = (\<lambda>l. ''old''), open_for = 5\<rparr>, [])))
     = [Fill username_input [], Fill username_input [],
        Fill password_input [], Fill password_input ''secret_sauce'',
        Click login_button False] \<and>
   loc_input_value form_browser username_input
     (fst (snd (login form_browser \<lparr>username = [], password = ''secret_sauce''\<rparr> (Some []) None
          (\<lparr>field_values = (\<lambda>l. ''old''), open_for = 5\<rparr>, [])))) = []"
  by (simp add: login_def fill_def click_def act_def record_event_def Let_def or_default_def
        form_fill username_input_def password_input_def login_button_def)

text \<open>
  C10, amended: \<open>login(username, password)\<close> uses the configured default for every falsy
  argument, \<open>None\<close> and the empty string alike: a call with \<open>""\<close> is the call with \<open>None\<close>, and
  a login that goes through has written, as the last value of each field before the click
  on the login button, the argument when it is a non-empty string and the configured
  default otherwise. So the user name (password) submitted through \<open>login()\<close> is empty
  only when the configured default user name (password) is itself empty.
\<close>

theorem login_falls_back_to_defaults:
  "login B creds (Some []) password_arg w = login B creds None password_arg w \<and>
   login B creds username_arg (Some []) w = login B creds username_arg None w \<and>
   (fst (login B creds username_arg password_arg (s, t)) = Inr () \<longrightarrow>
      snd (snd (login B creds username_arg password_arg (s, t))) =
        t @ [Fill username_input [],
             Fill username_input
               (if username_arg = None \<or> username_arg = Some [] then username creds
                else the username_arg),
             Fill password_input [],
             Fill password_input
               (if password_arg = None \<or> password_arg = Some [] then password creds
                else the password_arg),
             Click login_button False]) \<and>
   (username creds \<noteq> [] \<longrightarrow>
      (if username_arg = None \<or> username_arg = Some [] then username creds
       else the username_arg) \<noteq> []) \<and>
   (password creds \<noteq> [] \<longrightarrow>
      (if password_arg = None \<or> password_arg = Some [] then password creds
       else the password_arg) \<noteq> [])"
proof -
  have 1: "login B creds (Some []) password_arg w = login B creds None password_arg w"
    and 2: "login B creds username_arg (Some []) w = login B creds username_arg None w"
    by (simp_all add: login_def or_default_def)
  have 3: "fst (login B creds username_arg password_arg (s, t)) = Inr () \<longrightarrow>
      snd (snd (login B creds username_arg password_arg (s, t))) =
        t @ [Fill username_input [],
             Fill username_input
               (if username_arg = None \<or> username_arg = Some [] then username creds
                else the username_arg),
             Fill password_input [],
             Fill password_input
               (if password_arg = None \<or> password_arg = Some [] then password creds
                else the password_arg),
             Click login_button False]"
    using login_trace_ok[of B creds username_arg password_arg s t]
    by (simp only: or_default_eq) blast
  have 4: "username creds \<noteq> [] \<longrightarrow>
      (if username_arg = None \<or> username_arg = Some [] then username creds
       else the username_arg) \<noteq> []"
    by (cases username_arg) auto
  have 5: "password creds \<noteq> [] \<longrightarrow>
      (if password_arg = None \<or> password_arg = Some [] then password creds
       else the password_arg) \<noteq> []"
    by (cases password_arg) auto
  from 1 2 3 4 5 show ?thesis by blast
qed

theorem login_falls_back_to_defaults_witness:
  "fst (login form_browser \<lparr>username = ''standard_user'', password = ''secret_sauce''\<rparr>
          (Some []) None (\<lparr>field_values = (\<lambda>l. ''old''), open_for = 5\<rparr>, [])) = Inr () \<and>
   snd (snd (login form_browser \<lparr>username = ''standard_user'', password = ''secret_sauce''\<rparr>
          (Some []) None (\<lparr>field_values = (\<lambda>l. ''old''), open_for = 5\<rparr>, [])))
     = [Fill username_input [], Fill username_input ''standard_user'',
        Fill password_input [], Fill password_input ''secret_sauce'',
        Click login_button False] \<and>
   username \<lparr>username = ''standard_user'', password = ''secret_sauce''\<rparr> \<noteq> [] \<and>
   password \<lparr>username = ''standard_user'', password = ''secret_sauce''\<rparr> \<noteq> []"
proof -
  let ?c = "\<lparr>username = ''standard_user'', password = ''secret_sauce''\<rparr>"
  let ?w = "\<lparr>field_values = (\<lambda>l::locator. ''old''), open_for = 5\<rparr>"
  have ok: "fst (login form_browser ?c (Some []) None (?w, [])) = Inr ()"
    by (simp add: login_def fill_def click_def act_def record_event_def Let_def or_default_def
          form_fill username_input_def password_input_def login_button_def)
  note th = login_falls_back_to_defaults[where B = form_browser and creds = ?c
         and password_arg = None and w = "(?w, [])" and username_arg = "Some []"
         and s = ?w and t = "[]"]
  have "snd (snd (login form_browser ?c (Some []) None (?w, [])))
     = [Fill username_input [], Fill username_input ''standard_user'',
        Fill password_input [], Fill password_input ''secret_sauce'',
        Click login_button False]"
    using conjunct1[OF conjunct2[OF conjunct2[OF th]]] ok by simp
  with ok show ?thesis by simp
qed

section \<open>Properties of the logger provider\<close>

lemma setup_logger_cached:
  "cache st name = Some r \<Longrightarrow> setup_logger E name st = (Inr r, st)"
  by (simp add: setup_logger_def)

lemma cache_modify_logger [simp]: "cache (modify_logger r f st) = cache st"
  by (simp add: modify_logger_def)

lemma cache_addHandler [simp]: "cache (addHandler r h st) = cache st"
  by (simp add: addHandler_def)

lemma cache_getLogger [simp]: "cache (snd (getLogger name st)) = cache st"
  by (simp add: getLogger_def Let_def split: option.splits)

lemma setup_logger_caches:
  assumes "setup_logger E name st = (Inr r, st1)"
  shows "cache st1 name = Some r"
proof (cases "cache st name")
  case (Some r')
  with assms show ?thesis by (simp add: setup_logger_def)
next
  case None
  with assms show ?thesis
    by (auto simp: setup_logger_def Let_def split: prod.splits sum.splits if_splits)
qed

lemma setup_logger_keeps_cache:
  assumes "cache st name = Some r"
  shows "cache (snd (setup_logger E name' st)) name = Some r"
proof (cases "cache st name'")
  case (Some r')
  then show ?thesis using assms by (simp add: setup_logger_def)
next
  case None
  then have ne: "name' \<noteq> name" using assms by auto
  obtain k st1 where g: "getLogger name' st = (k, st1)" by (cases "getLogger name' st")
  then have c1: "cache st1 = cache st" using cache_getLogger[of name' st] by simp
  show ?thesis
    using None g c1 assms ne
    by (auto simp: setup_logger_def Let_def split: prod.splits sum.splits if_splits)
qed

lemma setup_calls_keep_cache:
  "cache st name = Some r \<Longrightarrow> cache (setup_calls calls st) name = Some r"
proof (induction calls arbitrary: st)
  case Nil
  then show ?case by simp
next
  case (Cons c calls)
  obtain E name' where c: "c = (E, name')" by (cases c)
  from Cons.prems have "cache (snd (setup_logger E name' st)) name = Some r"
    by (rule setup_logger_keeps_cache)
  from Cons.IH[OF this] show ?case by (simp add: c)
qed

text \<open>What one call can do to the handlers of any logger.\<close>

lemma handlers_of_modify:
  "handlers_of k (modify_logger r f st) =
     (if k = r then (case loggers st k of None \<Rightarrow> [] | Some lg \<Rightarrow> handlers (f lg))
      else handlers_of k st)"
  by (simp add: handlers_of_def modify_logger_def split: option.splits)

lemma handlers_of_getLogger:
  "handlers_of k (snd (getLogger name st)) = handlers_of k st"
  by (auto simp: handlers_of_def getLogger_def Let_def split: option.splits)

lemma getLogger_exists:
  "getLogger name st = (r, st1) \<Longrightarrow> loggers st1 r \<noteq> None"
  by (auto simp: getLogger_def Let_def split: option.splits if_splits)

lemma exists_modify [simp]:
  "(loggers (modify_logger r f st) k = None) = (loggers st k = None)"
  by (simp add: modify_logger_def)

lemma exists_addHandler [simp]:
  "(loggers (addHandler r h st) k = None) = (loggers st k = None)"
  by (simp add: addHandler_def)

lemma handlers_of_set_level [simp]:
  "handlers_of k (modify_logger r (\<lambda>lg. lg\<lparr>level := lv\<rparr>) st) = handlers_of k st"
  by (simp add: handlers_of_def modify_logger_def split: option.splits)

lemma handlers_of_set_propagate [simp]:
  "handlers_of k (modify_logger r (\<lambda>lg. lg\<lparr>propagate := b\<rparr>) st) = handlers_of k st"
  by (simp add: handlers_of_def modify_logger_def split: option.splits)

lemma handlers_of_cache_update [simp]:
  "handlers_of k (st\<lparr>cache := c\<rparr>) = handlers_of k st"
  by (simp add: handlers_of_def)

lemma handlers_of_addHandler:
  "handlers_of k (addHandler r h st) =
     (if k = r \<and> loggers st r \<noteq> None then handlers_of k st @ [h] else handlers_of k st)"
  by (auto simp: handlers_of_def addHandler_def modify_logger_def split: option.splits)

lemma setup_logger_handlers:
  "handlers_of k (snd (setup_logger E name st)) = handlers_of k st \<or>
   (handlers_of k st = [] \<and>
    (\<exists>lv. handlers_of k (snd (setup_logger E name st)) = [StreamHandler lv] \<or>
          (\<exists>p. handlers_of k (snd (setup_logger E name st)) = [StreamHandler lv, FileHandler p lv])))"
proof (cases "cache st name")
  case (Some r)
  then show ?thesis by (simp add: setup_logger_def)
next
  case None
  obtain r st1 where g: "getLogger name st = (r, st1)" by (cases "getLogger name st")
  then have h1: "handlers_of k st1 = handlers_of k st" for k
    using handlers_of_getLogger[of k name st] by simp
  show ?thesis
  proof (cases "check_level (LOG_LEVEL E)")
    case (Inl e)
    with None g h1 show ?thesis by (simp add: setup_logger_def)
  next
    case (Inr lv)
    have ex: "loggers st1 r \<noteq> None" using g by (rule getLogger_exists)
    show ?thesis
      using None g Inr h1 ex
      by (auto simp: setup_logger_def Let_def handlers_of_addHandler split: if_splits)
  qed
qed

lemma handlers_at_most_once_step:
  assumes "console_handlers (handlers_of k st) \<le> 1 \<and> file_handlers (handlers_of k st) \<le> 1"
  shows "console_handlers (handlers_of k (snd (setup_logger E name st))) \<le> 1 \<and>
         file_handlers (handlers_of k (snd (setup_logger E name st))) \<le> 1"
  using setup_logger_handlers[of k E name st] assms
  by (auto simp: console_handlers_def file_handlers_def)

lemma handlers_at_most_once_calls:
  "console_handlers (handlers_of k st) \<le> 1 \<and> file_handlers (handlers_of k st) \<le> 1 \<Longrightarrow>
   console_handlers (handlers_of k (setup_calls calls st)) \<le> 1 \<and>
   file_handlers (handlers_of k (setup_calls calls st)) \<le> 1"
proof (induction calls arbitrary: st)
  case Nil
  then show ?case by simp
next
  case (Cons c calls)
  obtain E name where c: "c = (E, name)" by (cases c)
  from handlers_at_most_once_step[OF Cons.prems, of E name]
  show ?case using Cons.IH c by simp
qed

lemma handlers_of_init: "handlers_of k logging_init = []"
  by (simp add: handlers_of_def logging_init_def)

text \<open>
  C9: \<open>setup_logger\<close> is idempotent per logger name. Once a call for a name has returned a
  logger, every later call for that name, whatever calls for other names came in between
  and whatever the surroundings are by then, returns that same logger object and leaves
  the whole logging state, and with it every handler list, as it is. And in a process that
  only ever calls \<open>setup_logger\<close>, every logger has at most one console handler and at
  most one file handler.
\<close>

theorem setup_logger_idempotent:
  "(setup_logger E name st = (Inr r, st1) \<longrightarrow>
      setup_logger E' name (setup_calls calls st1) = (Inr r, setup_calls calls st1)) \<and>
   console_handlers (handlers_of k (setup_calls calls logging_init)) \<le> 1 \<and>
   file_handlers (handlers_of k (setup_calls calls logging_init)) \<le> 1"
proof (intro conjI impI)
  assume "setup_logger E name st = (Inr r, st1)"
  then have "cache st1 name = Some r" by (rule setup_logger_caches)
  then have "cache (setup_calls calls st1) name = Some r" by (rule setup_calls_keep_cache)
  then show "setup_logger E' name (setup_calls calls st1) = (Inr r, setup_calls calls st1)"
    by (rule setup_logger_cached)
next
  have "console_handlers (handlers_of k logging_init) \<le> 1 \<and>
        file_handlers (handlers_of k logging_init) \<le> 1"
    by (simp add: handlers_of_init console_handlers_def file_handlers_def)
  from handlers_at_most_once_calls[OF this, of calls]
  show "console_handlers (handlers_of k (setup_calls calls logging_init)) \<le> 1"
    and "file_handlers (handlers_of k (setup_calls calls logging_init)) \<le> 1"
    by simp_all
qed

lemma first_setup:
  "fst (setup_logger run_env ''UI_Tests'' logging_init) = Inr ''UI_Tests''"
  "handlers_of ''UI_Tests'' (snd (setup_logger run_env ''UI_Tests'' logging_init)) =
     [StreamHandler 20, FileHandler ''logs/test_run_20240101_120000.log'' 20]"
  by (simp_all add: setup_logger_def getLogger_def logging_init_def check_level_def run_env_def
        handlers_of_def addHandler_def modify_logger_def path_join_def Let_def)

theorem setup_logger_idempotent_witness:
  "fst (setup_logger run_env ''UI_Tests'' logging_init) = Inr ''UI_Tests'' \<and>
   handlers_of ''UI_Tests'' (snd (setup_logger run_env ''UI_Tests'' logging_init)) =
     [StreamHandler 20, FileHandler ''logs/test_run_20240101_120000.log'' 20] \<and>
   setup_logger later_env ''UI_Tests''
       (setup_calls [(later_env, ''Fixtures'')] (snd (setup_logger run_env ''UI_Tests'' logging_init)))
     = (Inr ''UI_Tests'',
        setup_calls [(later_env, ''Fixtures'')] (snd (setup_logger run_env ''UI_Tests'' logging_init)))"
proof -
  let ?st1 = "snd (setup_logger run_env ''UI_Tests'' logging_init)"
  have first: "setup_logger run_env ''UI_Tests'' logging_init = (Inr ''UI_Tests'', ?st1)"
    using first_setup(1) by (metis prod.collapse)
  from setup_logger_idempotent[of run_env "''UI_Tests''" logging_init "''UI_Tests''" ?st1
         later_env "[(later_env, ''Fixtures'')]"] first
  have "setup_logger later_env ''UI_Tests'' (setup_calls [(later_env, ''Fixtures'')] ?st1)
     = (Inr ''UI_Tests'', setup_calls [(later_env, ''Fixtures'')] ?st1)"
    by blast
  with first_setup show ?thesis by simp
qed

end
